theory Spec2Isabelle
  imports Complex_Main "HOL-Library.Sublist"
begin

section \<open>Python values, errors and dictionaries\<close>

text \<open>
  The criteria dictionary of \<^verbatim>\<open>courses.py\<close> holds strings, integers and lists; the
  validator also lets tuples through, and a caller may pass anything else. Python's
  \<^verbatim>\<open>bool\<close> is a subtype of \<^verbatim>\<open>int\<close>, so \<^verbatim>\<open>isinstance(True, int)\<close> holds. A float
  is carried as a payload only: no arithmetic is done on it here.
\<close>

datatype pyval =
    VNone
  | VBool bool
  | VInt int
  | VFloat real
  | VStr string
  | VList "pyval list"
  | VTuple "pyval list"

datatype error = AssertionError | IndexError | KeyError | TypeError | StoreError string

text \<open>
  A \<^verbatim>\<open>dict\<close> keeps insertion order, and \<^verbatim>\<open>items()\<close> walks it in that order: an
  association list, read with \<open>map_of\<close>.
\<close>

type_synonym criteria = "(string \<times> pyval) list"

definition keys :: "criteria \<Rightarrow> string list" where
  "keys d = map fst d"

definition has_key :: "criteria \<Rightarrow> string \<Rightarrow> bool" where
  "has_key d k = (k \<in> set (keys d))"

definition get :: "criteria \<Rightarrow> string \<Rightarrow> pyval \<Rightarrow> pyval" where
  "get d k dflt = (case map_of d k of None \<Rightarrow> dflt | Some v \<Rightarrow> v)"

fun is_str :: "pyval \<Rightarrow> bool" where
  "is_str (VStr s) = True"
| "is_str v = False"

fun is_int :: "pyval \<Rightarrow> bool" where
  "is_int (VInt n) = True"
| "is_int (VBool b) = True"
| "is_int v = False"

fun is_list_or_tuple :: "pyval \<Rightarrow> bool" where
  "is_list_or_tuple (VList xs) = True"
| "is_list_or_tuple (VTuple xs) = True"
| "is_list_or_tuple v = False"

fun elems :: "pyval \<Rightarrow> pyval list" where
  "elems (VList xs) = xs"
| "elems (VTuple xs) = xs"
| "elems v = []"

fun int_value :: "pyval \<Rightarrow> int" where
  "int_value (VInt n) = n"
| "int_value (VBool b) = (if b then 1 else 0)"
| "int_value v = 0"

fun truthy :: "pyval \<Rightarrow> bool" where
  "truthy VNone = False"
| "truthy (VBool b) = b"
| "truthy (VInt n) = (n \<noteq> 0)"
| "truthy (VFloat r) = (r \<noteq> 0)"
| "truthy (VStr s) = (s \<noteq> [])"
| "truthy (VList xs) = (xs \<noteq> [])"
| "truthy (VTuple xs) = (xs \<noteq> [])"

section \<open>The input validator\<close>

text \<open>
  \<^verbatim>\<open>assert c\<close> followed by the rest of the body: the first failing assertion raises
  \<^verbatim>\<open>AssertionError\<close> and nothing after it runs.
\<close>

definition assert_then :: "bool \<Rightarrow> (error + 'a) \<Rightarrow> error + 'a" where
  "assert_then c rest = (if c then rest else Inl AssertionError)"

definition acceptable_keys :: "string set" where
  "acceptable_keys = {''time_start'', ''time_end'', ''enrollment'', ''dept'',
                      ''terms'', ''day'', ''building_code'', ''walking_time''}"

text \<open>
  \<^verbatim>\<open>assert_valid_input\<close>, lines 132 to 178, assertion by assertion. The parameter is
  typed as a dictionary, so \<^verbatim>\<open>assert isinstance(args_from_ui, dict)\<close> holds. Elements
  are read (\<open>elems\<close>, \<open>int_value\<close>, \<open>!\<close>) only after the assertion that makes the
  read defined has passed.
\<close>

definition assert_valid_input :: "criteria \<Rightarrow> error + unit" where
  "assert_valid_input args_from_ui =
    (let has_building = (has_key args_from_ui ''building_code'' \<and>
                         has_key args_from_ui ''walking_time'');
         does_not_have_building = (\<not> has_key args_from_ui ''building_code'' \<and>
                                   \<not> has_key args_from_ui ''walking_time'');
         terms = get args_from_ui ''terms'' (VList [VStr '''']);
         enrollment_val = get args_from_ui ''enrollment'' (VList [VInt 0, VInt 0])
     in
     assert_then (set (keys args_from_ui) \<subseteq> acceptable_keys) (
     assert_then (has_building \<or> does_not_have_building) (
     assert_then (is_str (get args_from_ui ''building_code'' (VStr ''''))) (
     assert_then (is_int (get args_from_ui ''walking_time'' (VInt 0))) (
     assert_then (is_list_or_tuple (get args_from_ui ''day'' (VList []))) (
     assert_then (list_all is_str (elems (get args_from_ui ''day'' (VList [])))) (
     assert_then (is_str (get args_from_ui ''dept'' (VStr ''''))) (
     assert_then (truthy terms) (
     assert_then (is_list_or_tuple terms) (
     assert_then (list_all is_str (elems terms)) (
     assert_then (is_int (get args_from_ui ''time_start'' (VInt 0))) (
     assert_then (int_value (get args_from_ui ''time_start'' (VInt 0)) \<ge> 0) (
     assert_then (is_int (get args_from_ui ''time_end'' (VInt 0))) (
     assert_then (int_value (get args_from_ui ''time_end'' (VInt 0)) < 2400) (
     assert_then (is_list_or_tuple enrollment_val) (
     assert_then (length (elems enrollment_val) = 2) (
     assert_then (list_all is_int (elems enrollment_val)) (
     assert_then (int_value (elems enrollment_val ! 0) \<le> int_value (elems enrollment_val ! 1)) (
     Inr ())))))))))))))))))))"

section \<open>The result shaper\<close>

text \<open>
  A column descriptor of \<^verbatim>\<open>cursor.description\<close>: its first component is the column
  name, which is all \<^verbatim>\<open>get_header\<close> reads (\<^verbatim>\<open>i[0]\<close>).
\<close>

datatype descriptor = Descriptor (name: string) (rest: "pyval list")

text \<open>\<^verbatim>\<open>s.find(c)\<close> for a one-character needle: the index of its first occurrence, or -1.\<close>

definition str_find :: "string \<Rightarrow> char \<Rightarrow> int" where
  "str_find s c = (if c \<in> set s then int (length (takeWhile (\<lambda>x. x \<noteq> c) s)) else - 1)"

text \<open>\<^verbatim>\<open>s[i:]\<close>: a negative start counts from the end and is clipped at 0.\<close>

definition slice_from :: "string \<Rightarrow> int \<Rightarrow> string" where
  "slice_from s i = (if i < 0 then drop (nat (int (length s) + i)) s else drop (nat i) s)"

fun get_header_loop :: "descriptor list \<Rightarrow> string list \<Rightarrow> string list" where
  "get_header_loop [] header = header"
| "get_header_loop (i # more) header =
     (let s = name i;
          s = (if CHR ''.'' \<in> set s then slice_from s (str_find s (CHR ''.'') + 1) else s)
      in get_header_loop more (header @ [s]))"

definition get_header :: "descriptor list \<Rightarrow> string list" where
  "get_header description = get_header_loop description []"

section \<open>The query composer\<close>

text \<open>
  The connection is the environment of \<^verbatim>\<open>find_courses\<close>: \<^verbatim>\<open>c.execute(sql, params)\<close>
  either raises or yields a cursor (column descriptors and rows). The tables are only
  read, so the store is a function of the statement and its parameters; what the program
  does to the connection is logged as a list of events, in order. The callable registered
  as \<^verbatim>\<open>time_between\<close> is \<^verbatim>\<open>compute_time_between\<close>, floating-point code that is left
  out here: its registration is logged by SQL name and arity.
\<close>

type_synonym row = "pyval list"

type_synonym cursor = "descriptor list \<times> row list"

type_synonym store = "string \<Rightarrow> pyval list \<Rightarrow> error + cursor"

datatype event = CreateFunction string nat | Execute string "pyval list"

fun is_Execute :: "event \<Rightarrow> bool" where
  "is_Execute (Execute q ps) = True"
| "is_Execute (CreateFunction f n) = False"

text \<open>\<^verbatim>\<open>sep.join(xs)\<close>.\<close>

fun join :: "string \<Rightarrow> string list \<Rightarrow> string" where
  "join sep [] = []"
| "join sep [x] = x"
| "join sep (x # y # ys) = x @ sep @ join sep (y # ys)"

definition nl :: string where
  "nl = [CHR 0x0A]"

text \<open>
  The triple-quoted SQL literals of lines 47 to 90, line by line with their indentation.
  \<open>where_terms\<close> is the template of line 83 with its \<^verbatim>\<open>{}\<close> filled by the argument
  (\<^verbatim>\<open>where_terms.format(x)\<close>).
\<close>

definition select0 :: string where
  "select0 =
   join nl
     ['''',
      ''             SELECT DISTINCT'',
      ''             courses.dept,'',
      ''             courses.course_num,'',
      ''             courses.title'',
      ''             '']"

definition add_select1 :: string where
  "add_select1 =
   join nl
     ['''',
      ''         ,'',
      ''         sections.section_num,'',
      ''         meeting_patterns.day,'',
      ''         meeting_patterns.time_start,'',
      ''         meeting_patterns.time_end,'',
      ''         sections.enrollment'',
      ''         '']"

definition add_select2 :: string where
  "add_select2 =
   join nl
     ['''',
      ''         ,'',
      ''         sections.building_code,'',
      ''         time_between(gps.lon, gps.lat, ?, ?) AS walking_time'',
      '''',
      ''         '']"

definition frm0 :: string where
  "frm0 =
   join nl
     ['''',
      ''        FROM courses'',
      ''        '']"

definition add_joins :: string where
  "add_joins =
   join nl
     ['''',
      ''        JOIN sections on courses.course_id = sections.course_id'',
      ''        JOIN meeting_patterns ON sections.meeting_pattern_id = meeting_patterns.meeting_pattern_id'',
      ''        JOIN gps on gps.building_code = sections.building_code'',
      ''        '']"

definition where0 :: string where
  "where0 =
   join nl
     ['''',
      ''        WHERE 1 = 1'',
      ''        '']"

definition where_terms :: "string \<Rightarrow> string" where
  "where_terms x =
   join nl
     ['''',
      ''        AND courses.course_id IN'',
      ''        (SELECT course_id FROM catalog_index'',
      ''        WHERE word IN ('' @ x @ '')'',
      ''        GROUP BY course_id'',
      ''        HAVING count(*) = ?)'',
      ''        '']"

text \<open>\<^verbatim>\<open>len(v)\<close>: a \<^verbatim>\<open>TypeError\<close> on a value that has no length.\<close>

fun py_len :: "pyval \<Rightarrow> error + nat" where
  "py_len (VList xs) = Inr (length xs)"
| "py_len (VTuple xs) = Inr (length xs)"
| "py_len (VStr s) = Inr (length s)"
| "py_len v = Inl TypeError"

text \<open>\<^verbatim>\<open>', '.join(['?'] * n)\<close>.\<close>

definition placeholders :: "nat \<Rightarrow> string" where
  "placeholders n = join '', '' (replicate n ''?'')"

text \<open>
  \<^verbatim>\<open>where_dict\<close>, lines 91 to 99: its seven entries, given the two lengths, and the
  dictionary itself. The literal is built whole, before the loop reads it, so both
  \<^verbatim>\<open>len\<close> calls run whichever keys the criteria hold.
\<close>

definition where_dict_entries :: "nat \<Rightarrow> nat \<Rightarrow> (string \<times> string) list" where
  "where_dict_entries n_day n_terms =
     [(''time_start'', '' AND meeting_patterns.time_start >= ?''),
      (''time_end'', '' AND meeting_patterns.time_end <= ?''),
      (''day'', '' AND meeting_patterns.day IN ('' @ placeholders n_day @ '')''),
      (''dept'', '' AND courses.dept = ?''),
      (''enrollment'', '' AND sections.enrollment BETWEEN ? AND ?''),
      (''terms'', where_terms (placeholders n_terms)),
      (''walking_time'', '' AND walking_time <= ?'')]"

definition where_dict :: "criteria \<Rightarrow> error + (string \<times> string) list" where
  "where_dict args_from_ui =
    (case py_len (get args_from_ui ''day'' (VList [])) of
       Inl e \<Rightarrow> Inl e
     | Inr n_day \<Rightarrow>
        (case py_len (get args_from_ui ''terms'' (VList [])) of
           Inl e \<Rightarrow> Inl e
         | Inr n_terms \<Rightarrow> Inr (where_dict_entries n_day n_terms)))"

definition input_vars :: "string set" where
  "input_vars = {''enrollment'', ''time_start'', ''time_end'', ''day'', ''section_num'',
                 ''walking_time'', ''building_code''}"

definition lookup_sql :: string where
  "lookup_sql = ''select lon, lat from gps where building_code = ?''"

text \<open>
  Lines 104 to 111: the select list, the from clause and the first bound parameters.
  \<^verbatim>\<open>fetchall()[0]\<close> raises \<^verbatim>\<open>IndexError\<close> on an empty result; \<^verbatim>\<open>list(lonlat)\<close> is the
  first row, whatever its width.
\<close>

definition select_and_joins ::
    "store \<Rightarrow> criteria \<Rightarrow> (error + (string \<times> string \<times> pyval list)) \<times> event list" where
  "select_and_joins c args_from_ui =
    (if card (set (keys args_from_ui) \<inter> input_vars) > 0 then
       (if ''building_code'' \<in> set (keys args_from_ui) then
          (case map_of args_from_ui ''building_code'' of
             None \<Rightarrow> (Inl KeyError, [])
           | Some b \<Rightarrow>
              (case c lookup_sql [b] of
                 Inl e \<Rightarrow> (Inl e, [Execute lookup_sql [b]])
               | Inr (description, rows) \<Rightarrow>
                  (case rows of
                     [] \<Rightarrow> (Inl IndexError, [Execute lookup_sql [b]])
                   | lonlat # more \<Rightarrow>
                       (Inr (select0 @ add_select1 @ add_select2, frm0 @ add_joins, lonlat),
                        [Execute lookup_sql [b]]))))
        else (Inr (select0 @ add_select1, frm0 @ add_joins, []), []))
     else (Inr (select0, frm0, []), []))"

text \<open>
  Lines 117 to 122: what one criterion appends to the parameter list. The test is
  \<^verbatim>\<open>type(v) == list\<close>, so a tuple takes the \<^verbatim>\<open>else\<close> branch and is appended whole.
\<close>

fun bound_values :: "string \<Rightarrow> pyval \<Rightarrow> pyval list" where
  "bound_values k (VList xs) =
     (if k = ''terms'' then xs @ [VInt (int (length xs))] else xs)"
| "bound_values k v = [v]"

text \<open>
  The loop of lines 114 to 122 over \<^verbatim>\<open>args_from_ui.items()\<close>, carrying \<^verbatim>\<open>where\<close> and
  \<^verbatim>\<open>args\<close>. \<^verbatim>\<open>where_dict[k]\<close> raises \<^verbatim>\<open>KeyError\<close> on a key it does not hold.
\<close>

fun where_loop ::
    "(string \<times> string) list \<Rightarrow> criteria \<Rightarrow> string \<Rightarrow> pyval list \<Rightarrow> error + (string \<times> pyval list)" where
  "where_loop wd [] w a = Inr (w, a)"
| "where_loop wd ((k, v) # items) w a =
     (if k \<noteq> ''building_code'' then
        (case map_of wd k of
           None \<Rightarrow> Inl KeyError
         | Some fragment \<Rightarrow> where_loop wd items (w @ fragment) (a @ bound_values k v))
      else where_loop wd items w a)"

record composed =
  select :: string
  frm :: string
  where_clause :: string
  args :: "pyval list"

text \<open>Lines 47 to 122: the three parts of the query text and the parameter list.\<close>

definition compose :: "store \<Rightarrow> criteria \<Rightarrow> (error + composed) \<times> event list" where
  "compose c args_from_ui =
    (case where_dict args_from_ui of
       Inl e \<Rightarrow> (Inl e, [])
     | Inr wd \<Rightarrow>
        (case select_and_joins c args_from_ui of
           (Inl e, evs) \<Rightarrow> (Inl e, evs)
         | (Inr (sel, fr, a), evs) \<Rightarrow>
            (case where_loop wd args_from_ui where0 a of
               Inl e \<Rightarrow> (Inl e, evs)
             | Inr (w, a') \<Rightarrow>
                 (Inr \<lparr>select = sel, frm = fr, where_clause = w, args = a'\<rparr>, evs))))"

definition query :: "composed \<Rightarrow> string" where
  "query q = select q @ frm q @ where_clause q"

text \<open>
  \<^verbatim>\<open>find_courses\<close>: the result, or the exception raised, and the events on the
  connection. The scalar function is registered before the emptiness test.
\<close>

definition find_courses ::
    "store \<Rightarrow> criteria \<Rightarrow> (error + (string list \<times> row list)) \<times> event list" where
  "find_courses c args_from_ui =
    (let registered = [CreateFunction ''time_between'' 4] in
     if length args_from_ui = 0 then (Inr ([], []), registered)
     else
       (case assert_valid_input args_from_ui of
          Inl e \<Rightarrow> (Inl e, registered)
        | Inr u \<Rightarrow>
           (case compose c args_from_ui of
              (Inl e, evs) \<Rightarrow> (Inl e, registered @ evs)
            | (Inr q, evs) \<Rightarrow>
               (case c (query q) (args q) of
                  Inl e \<Rightarrow> (Inl e, registered @ evs @ [Execute (query q) (args q)])
                | Inr (description, rows) \<Rightarrow>
                    (Inr (get_header description, rows),
                     registered @ evs @ [Execute (query q) (args q)])))))"



section \<open>The validator's contract, as the specification words it\<close>

text \<open>
  A key is present and its value fails to be as required. Integer means what
  \<^verbatim>\<open>isinstance(v, int)\<close> means, a sequence is a list or a tuple.
\<close>

definition present_but_not :: "criteria \<Rightarrow> string \<Rightarrow> (pyval \<Rightarrow> bool) \<Rightarrow> bool" where
  "present_but_not d k required = (case map_of d k of None \<Rightarrow> False | Some v \<Rightarrow> \<not> required v)"

definition sequence_of_strings :: "pyval \<Rightarrow> bool" where
  "sequence_of_strings v = (is_list_or_tuple v \<and> list_all is_str (elems v))"

definition non_empty_sequence_of_strings :: "pyval \<Rightarrow> bool" where
  "non_empty_sequence_of_strings v = (sequence_of_strings v \<and> elems v \<noteq> [])"

definition non_negative_integer :: "pyval \<Rightarrow> bool" where
  "non_negative_integer v = (is_int v \<and> 0 \<le> int_value v)"

definition integer_below_2400 :: "pyval \<Rightarrow> bool" where
  "integer_below_2400 v = (is_int v \<and> int_value v < 2400)"

definition integer_pair_lo_hi :: "pyval \<Rightarrow> bool" where
  "integer_pair_lo_hi v =
     (is_list_or_tuple v \<and> length (elems v) = 2 \<and> list_all is_int (elems v) \<and>
      int_value (elems v ! 0) \<le> int_value (elems v ! 1))"

text \<open>The eight violations of section 4.1, in the order the specification lists them.\<close>

definition violates_4_1 :: "criteria \<Rightarrow> bool" where
  "violates_4_1 d =
     ((\<exists>k \<in> set (keys d). k \<notin> {''time_start'', ''time_end'', ''enrollment'', ''dept'',
                                  ''terms'', ''day'', ''building_code'', ''walking_time''}) \<or>
      (has_key d ''building_code'' \<noteq> has_key d ''walking_time'') \<or>
      present_but_not d ''building_code'' is_str \<or>
      present_but_not d ''dept'' is_str \<or>
      present_but_not d ''day'' sequence_of_strings \<or>
      present_but_not d ''terms'' non_empty_sequence_of_strings \<or>
      present_but_not d ''time_start'' non_negative_integer \<or>
      present_but_not d ''time_end'' integer_below_2400 \<or>
      present_but_not d ''enrollment'' integer_pair_lo_hi)"

text \<open>The same list with one more entry: \<^verbatim>\<open>walking_time\<close> present but not an integer.\<close>

definition violates_4_1_or_walking_time :: "criteria \<Rightarrow> bool" where
  "violates_4_1_or_walking_time d = (violates_4_1 d \<or> present_but_not d ''walking_time'' is_int)"


text \<open>The criteria the loop of lines 114 to 122 turns into predicates: all but \<^verbatim>\<open>building_code\<close>.\<close>

definition predicate_items :: "criteria \<Rightarrow> criteria" where
  "predicate_items items = filter (\<lambda>kv. fst kv \<noteq> ''building_code'') items"

text \<open>The text \<^verbatim>\<open>where_dict\<close> holds for a key, empty when there is none.\<close>

definition fragment :: "criteria \<Rightarrow> string \<Rightarrow> string" where
  "fragment a k =
     (case where_dict a of
        Inl e \<Rightarrow> []
      | Inr wd \<Rightarrow> (case map_of wd k of None \<Rightarrow> [] | Some f \<Rightarrow> f))"

text \<open>
  A store for the examples: it knows one building, \<^verbatim>\<open>RY\<close>, answers the lookup for any
  other code with no row, and answers every other statement with three columns and no row.
\<close>

definition sample_store :: store where
  "sample_store q ps =
     (if q = lookup_sql then
        (if ps = [VStr ''RY'']
         then Inr ([Descriptor ''lon'' [], Descriptor ''lat'' []], [[VFloat (- 87.6), VFloat 41.79]])
         else Inr ([Descriptor ''lon'' [], Descriptor ''lat'' []], []))
      else Inr ([Descriptor ''dept'' [], Descriptor ''course_num'' [], Descriptor ''title'' []], []))"

text \<open>The keys the specification calls section-scoped.\<close>

definition section_keys :: "string set" where
  "section_keys = {''enrollment'', ''time_start'', ''time_end'', ''day'', ''walking_time''}"

text \<open>Criteria none of whose values is a tuple: every sequence among them is a list.\<close>

definition list_valued :: "criteria \<Rightarrow> bool" where
  "list_valued a = list_all (\<lambda>kv. case snd kv of VTuple xs \<Rightarrow> False | v \<Rightarrow> True) a"

text \<open>
  The lookup of lines 107 to 109 raises: the criteria hold a \<^verbatim>\<open>building_code\<close> and the
  store rejects the lookup or answers it with no row.
\<close>

definition lookup_fails :: "store \<Rightarrow> criteria \<Rightarrow> bool" where
  "lookup_fails c a =
     (case map_of a ''building_code'' of
        None \<Rightarrow> False
      | Some b \<Rightarrow> (case c lookup_sql [b] of Inl e \<Rightarrow> True | Inr (description, rows) \<Rightarrow> rows = []))"

section \<open>Properties\<close>

lemma get_header_loop_map:
  "get_header_loop ds header =
     header @ map (\<lambda>i. if CHR ''.'' \<in> set (name i)
                        then slice_from (name i) (str_find (name i) (CHR ''.'') + 1)
                        else name i) ds"
  by (induction ds arbitrary: header) (simp_all add: Let_def)

lemma takeWhile_until:
  "c \<notin> set pre \<Longrightarrow> takeWhile (\<lambda>x. x \<noteq> c) (pre @ c # post) = pre"
  by (induction pre) auto

lemma strip_first:
  "CHR ''.'' \<notin> set pre \<Longrightarrow>
     slice_from (pre @ CHR ''.'' # post) (str_find (pre @ CHR ''.'' # post) (CHR ''.'') + 1) = post"
proof -
  assume h: "CHR ''.'' \<notin> set pre"
  have "nat (int (length pre) + 1) = Suc (length pre)" by simp
  then show ?thesis
    using h by (simp add: slice_from_def str_find_def takeWhile_until del: of_nat_Suc)
qed

text \<open>
  Claim C6, as the code has it: \<^verbatim>\<open>get_header\<close> yields one name per descriptor, in the
  same order; a name without a dot is kept, and a name with a dot loses everything up to
  and including its FIRST dot.
\<close>

theorem get_header_first_separator:
  "length (get_header ds) = length ds \<and>
   (\<forall>i < length ds.
      (CHR ''.'' \<notin> set (name (ds ! i)) \<longrightarrow> get_header ds ! i = name (ds ! i)) \<and>
      (\<forall>pre post. name (ds ! i) = pre @ CHR ''.'' # post \<and> CHR ''.'' \<notin> set pre
                    \<longrightarrow> get_header ds ! i = post))"
  by (auto simp: get_header_def get_header_loop_map strip_first)

text \<open>The header of a qualified and an unqualified column.\<close>

theorem get_header_first_separator_witness:
  "get_header [Descriptor ''courses.dept'' [], Descriptor ''walking_time'' []]
     = [''dept'', ''walking_time'']"
proof -
  let ?ds = "[Descriptor ''courses.dept'' [], Descriptor ''walking_time'' []]"
  have len: "length (get_header ?ds) = 2"
    using get_header_first_separator [of ?ds] by simp
  have a: "get_header ?ds ! 0 = ''dept''"
    using get_header_first_separator [of ?ds, THEN conjunct2, rule_format, of 0, THEN conjunct2, rule_format, of "''courses''" "''dept''"]
    by simp
  have b: "get_header ?ds ! 1 = ''walking_time''"
    using get_header_first_separator [of ?ds, THEN conjunct2, rule_format, of 1, THEN conjunct1]
    by simp
  show ?thesis
    using len a b by (cases "get_header ?ds"; cases "tl (get_header ?ds)") auto
qed

text \<open>
  Claim C6 as stated fails: on \<^verbatim>\<open>a.b.c\<close> the code keeps \<^verbatim>\<open>b.c\<close>, not \<^verbatim>\<open>c\<close>.
\<close>

theorem get_header_last_separator_counterexample:
  "get_header [Descriptor ''a.b.c'' []] = [''b.c''] \<and> get_header [Descriptor ''a.b.c'' []] \<noteq> [''c'']"
  by (simp add: get_header_def slice_from_def str_find_def)

text \<open>
  Claim C4: on the empty criteria \<^verbatim>\<open>find_courses\<close> returns \<^verbatim>\<open>([], [])\<close>, and the only
  event on the connection is the registration of the scalar function: no statement is
  executed, neither the lookup nor a composed query.
\<close>

theorem find_courses_empty:
  "find_courses c [] = (Inr ([], []), [CreateFunction ''time_between'' 4]) \<and>
   filter is_Execute (snd (find_courses c [])) = []"
  by (simp add: find_courses_def)

text \<open>The empty criteria against a store that would reject every statement.\<close>

theorem find_courses_empty_witness:
  "find_courses (\<lambda>q ps. Inl (StoreError ''no such table'')) [] =
     (Inr ([], []), [CreateFunction ''time_between'' 4])"
  using find_courses_empty [of "\<lambda>q ps. Inl (StoreError ''no such table'')"] by simp

lemma assert_then_Inr: "assert_then c r = Inr x \<longleftrightarrow> c \<and> r = Inr x"
  by (simp add: assert_then_def)

lemma assert_then_cases:
  "r = Inr () \<or> r = Inl AssertionError \<Longrightarrow>
   assert_then c r = Inr () \<or> assert_then c r = Inl AssertionError"
  by (simp add: assert_then_def)

lemma assert_valid_input_cases:
  "assert_valid_input d = Inr () \<or> assert_valid_input d = Inl AssertionError"
  unfolding assert_valid_input_def Let_def
  by (intro assert_then_cases) simp

lemma get_required:
  "required dflt \<Longrightarrow> required (get d k dflt) \<longleftrightarrow> \<not> present_but_not d k required"
  by (simp add: get_def present_but_not_def split: option.splits)

lemma truthy_sequence:
  "truthy v \<and> is_list_or_tuple v \<and> list_all is_str (elems v) \<longleftrightarrow> non_empty_sequence_of_strings v"
  by (cases v) (auto simp: non_empty_sequence_of_strings_def sequence_of_strings_def)

lemma assert_valid_input_Inr_raw:
  "assert_valid_input d = Inr () \<longleftrightarrow>
     set (keys d) \<subseteq> acceptable_keys \<and>
     ((has_key d ''building_code'' \<and> has_key d ''walking_time'') \<or>
      (\<not> has_key d ''building_code'' \<and> \<not> has_key d ''walking_time'')) \<and>
     is_str (get d ''building_code'' (VStr '''')) \<and>
     is_int (get d ''walking_time'' (VInt 0)) \<and>
     is_list_or_tuple (get d ''day'' (VList [])) \<and>
     list_all is_str (elems (get d ''day'' (VList []))) \<and>
     is_str (get d ''dept'' (VStr '''')) \<and>
     truthy (get d ''terms'' (VList [VStr ''''])) \<and>
     is_list_or_tuple (get d ''terms'' (VList [VStr ''''])) \<and>
     list_all is_str (elems (get d ''terms'' (VList [VStr '''']))) \<and>
     is_int (get d ''time_start'' (VInt 0)) \<and>
     int_value (get d ''time_start'' (VInt 0)) \<ge> 0 \<and>
     is_int (get d ''time_end'' (VInt 0)) \<and>
     int_value (get d ''time_end'' (VInt 0)) < 2400 \<and>
     is_list_or_tuple (get d ''enrollment'' (VList [VInt 0, VInt 0])) \<and>
     length (elems (get d ''enrollment'' (VList [VInt 0, VInt 0]))) = 2 \<and>
     list_all is_int (elems (get d ''enrollment'' (VList [VInt 0, VInt 0]))) \<and>
     int_value (elems (get d ''enrollment'' (VList [VInt 0, VInt 0])) ! 0)
       \<le> int_value (elems (get d ''enrollment'' (VList [VInt 0, VInt 0])) ! 1)"
  unfolding assert_valid_input_def Let_def assert_then_Inr
  by (simp only: simp_thms)

lemma subset_no_outsider: "A \<subseteq> B \<longleftrightarrow> \<not> (\<exists>k \<in> A. k \<notin> B)"
  by blast

lemma keys_ok: "set (keys d) \<subseteq> acceptable_keys \<longleftrightarrow>
    \<not> (\<exists>k \<in> set (keys d). k \<notin> {''time_start'', ''time_end'', ''enrollment'', ''dept'',
                                  ''terms'', ''day'', ''building_code'', ''walking_time''})"
  unfolding acceptable_keys_def by (rule subset_no_outsider)

lemma building_ok:
  "((has_key d ''building_code'' \<and> has_key d ''walking_time'') \<or>
      (\<not> has_key d ''building_code'' \<and> \<not> has_key d ''walking_time'')) \<longleftrightarrow>
   \<not> (has_key d ''building_code'' \<noteq> has_key d ''walking_time'')"
  by blast

lemma building_code_ok:
  "is_str (get d ''building_code'' (VStr '''')) \<longleftrightarrow> \<not> present_but_not d ''building_code'' is_str"
  by (rule get_required) simp

lemma walking_time_ok:
  "is_int (get d ''walking_time'' (VInt 0)) \<longleftrightarrow> \<not> present_but_not d ''walking_time'' is_int"
  by (rule get_required) simp

lemma dept_ok:
  "is_str (get d ''dept'' (VStr '''')) \<longleftrightarrow> \<not> present_but_not d ''dept'' is_str"
  by (rule get_required) simp

lemma day_ok:
  "is_list_or_tuple (get d ''day'' (VList [])) \<and> list_all is_str (elems (get d ''day'' (VList [])))
     \<longleftrightarrow> \<not> present_but_not d ''day'' sequence_of_strings"
  using get_required [of sequence_of_strings "VList []" d "''day''"]
  by (simp add: sequence_of_strings_def)

lemma terms_ok:
  "truthy (get d ''terms'' (VList [VStr ''''])) \<and>
   is_list_or_tuple (get d ''terms'' (VList [VStr ''''])) \<and>
   list_all is_str (elems (get d ''terms'' (VList [VStr ''''])))
     \<longleftrightarrow> \<not> present_but_not d ''terms'' non_empty_sequence_of_strings"
  unfolding truthy_sequence
  by (rule get_required) (simp add: non_empty_sequence_of_strings_def sequence_of_strings_def)

lemma time_start_ok:
  "is_int (get d ''time_start'' (VInt 0)) \<and> int_value (get d ''time_start'' (VInt 0)) \<ge> 0
     \<longleftrightarrow> \<not> present_but_not d ''time_start'' non_negative_integer"
  using get_required [of non_negative_integer "VInt 0" d "''time_start''"]
  by (simp add: non_negative_integer_def)

lemma time_end_ok:
  "is_int (get d ''time_end'' (VInt 0)) \<and> int_value (get d ''time_end'' (VInt 0)) < 2400
     \<longleftrightarrow> \<not> present_but_not d ''time_end'' integer_below_2400"
  using get_required [of integer_below_2400 "VInt 0" d "''time_end''"]
  by (simp add: integer_below_2400_def)

lemma enrollment_ok:
  "is_list_or_tuple (get d ''enrollment'' (VList [VInt 0, VInt 0])) \<and>
   length (elems (get d ''enrollment'' (VList [VInt 0, VInt 0]))) = 2 \<and>
   list_all is_int (elems (get d ''enrollment'' (VList [VInt 0, VInt 0]))) \<and>
   int_value (elems (get d ''enrollment'' (VList [VInt 0, VInt 0])) ! 0)
       \<le> int_value (elems (get d ''enrollment'' (VList [VInt 0, VInt 0])) ! 1)
     \<longleftrightarrow> \<not> present_but_not d ''enrollment'' integer_pair_lo_hi"
  using get_required [of integer_pair_lo_hi "VList [VInt 0, VInt 0]" d "''enrollment''"]
  by (simp add: integer_pair_lo_hi_def)

lemma not_violates:
  "\<not> violates_4_1_or_walking_time d \<longleftrightarrow>
     \<not> (\<exists>k \<in> set (keys d). k \<notin> {''time_start'', ''time_end'', ''enrollment'', ''dept'',
                                  ''terms'', ''day'', ''building_code'', ''walking_time''}) \<and>
     \<not> (has_key d ''building_code'' \<noteq> has_key d ''walking_time'') \<and>
     \<not> present_but_not d ''building_code'' is_str \<and>
     \<not> present_but_not d ''walking_time'' is_int \<and>
     \<not> present_but_not d ''day'' sequence_of_strings \<and>
     \<not> present_but_not d ''dept'' is_str \<and>
     \<not> present_but_not d ''terms'' non_empty_sequence_of_strings \<and>
     \<not> present_but_not d ''time_start'' non_negative_integer \<and>
     \<not> present_but_not d ''time_end'' integer_below_2400 \<and>
     \<not> present_but_not d ''enrollment'' integer_pair_lo_hi"
  unfolding violates_4_1_or_walking_time_def violates_4_1_def
  by (simp only: de_Morgan_disj) (simp only: conj_ac)

lemma assert_valid_input_Inr:
  "assert_valid_input d = Inr () \<longleftrightarrow> \<not> violates_4_1_or_walking_time d"
  unfolding not_violates
    keys_ok [symmetric] building_ok [symmetric] building_code_ok [symmetric]
    walking_time_ok [symmetric] dept_ok [symmetric] day_ok [symmetric] terms_ok [symmetric]
    time_start_ok [symmetric] time_end_ok [symmetric] enrollment_ok [symmetric]
    assert_valid_input_Inr_raw
  by (simp only: conj_assoc)

text \<open>
  Claim C5, as the code has it: \<^verbatim>\<open>assert_valid_input\<close> raises \<^verbatim>\<open>AssertionError\<close> exactly
  when the criteria violate one of the eight constraints of section 4.1 or hold a
  \<^verbatim>\<open>walking_time\<close> that is not an integer; otherwise it returns nothing. It is a function
  of the criteria alone.
\<close>

theorem assert_valid_input_iff:
  "assert_valid_input d = (if violates_4_1_or_walking_time d then Inl AssertionError else Inr ())"
  using assert_valid_input_Inr [of d] assert_valid_input_cases [of d] by auto


text \<open>
  Claim C5 as stated fails: a \<^verbatim>\<open>walking_time\<close> that is a string violates none of the
  eight listed constraints, and the validator raises.
\<close>

theorem validator_walking_time_counterexample:
  "assert_valid_input [(''building_code'', VStr ''RY''), (''walking_time'', VStr ''ten'')]
     = Inl AssertionError \<and>
   \<not> violates_4_1 [(''building_code'', VStr ''RY''), (''walking_time'', VStr ''ten'')]"
proof
  show "assert_valid_input [(''building_code'', VStr ''RY''), (''walking_time'', VStr ''ten'')]
     = Inl AssertionError"
    by (simp add: assert_valid_input_def assert_then_def get_def has_key_def keys_def
        acceptable_keys_def)
  show "\<not> violates_4_1 [(''building_code'', VStr ''RY''), (''walking_time'', VStr ''ten'')]"
    by (simp add: violates_4_1_def present_but_not_def has_key_def keys_def)
qed

text \<open>An accepted mapping, and one rejected for an enrollment pair out of order.\<close>

theorem assert_valid_input_iff_witness:
  "assert_valid_input [(''dept'', VStr ''CMSC''), (''enrollment'', VList [VInt 10, VInt 50])] = Inr () \<and>
   assert_valid_input [(''enrollment'', VList [VInt 50, VInt 10])] = Inl AssertionError"
proof
  have ok: "\<not> violates_4_1_or_walking_time
             [(''dept'', VStr ''CMSC''), (''enrollment'', VList [VInt 10, VInt 50])]"
    by (simp add: violates_4_1_or_walking_time_def violates_4_1_def present_but_not_def
        has_key_def keys_def integer_pair_lo_hi_def)
  show "assert_valid_input [(''dept'', VStr ''CMSC''), (''enrollment'', VList [VInt 10, VInt 50])]
          = Inr ()"
    using ok assert_valid_input_iff
            [of "[(''dept'', VStr ''CMSC''), (''enrollment'', VList [VInt 10, VInt 50])]"]
    by simp
  have bad: "violates_4_1_or_walking_time [(''enrollment'', VList [VInt 50, VInt 10])]"
    by (simp add: violates_4_1_or_walking_time_def violates_4_1_def present_but_not_def
        has_key_def keys_def integer_pair_lo_hi_def)
  show "assert_valid_input [(''enrollment'', VList [VInt 50, VInt 10])] = Inl AssertionError"
    using bad assert_valid_input_iff [of "[(''enrollment'', VList [VInt 50, VInt 10])]"]
    by simp
qed

lemma py_len_sequence: "is_list_or_tuple v \<Longrightarrow> py_len v = Inr (length (elems v))"
  by (cases v) simp_all

lemma get_other_default:
  "is_list_or_tuple (get d k d1) \<Longrightarrow> is_list_or_tuple d2 \<Longrightarrow> is_list_or_tuple (get d k d2)"
  by (simp add: get_def split: option.splits)

lemma where_dict_valid:
  assumes "assert_valid_input a = Inr ()"
  shows "where_dict a =
           Inr (where_dict_entries (length (elems (get a ''day'' (VList []))))
                                   (length (elems (get a ''terms'' (VList [])))))"
proof -
  from assms have day: "is_list_or_tuple (get a ''day'' (VList []))"
    and terms: "is_list_or_tuple (get a ''terms'' (VList [VStr '''']))"
    unfolding assert_valid_input_Inr_raw by simp_all
  from terms have "is_list_or_tuple (get a ''terms'' (VList []))"
    by (rule get_other_default) simp
  with day show ?thesis
    by (simp add: where_dict_def py_len_sequence)
qed

lemma entries_cover:
  "k \<in> acceptable_keys \<Longrightarrow> k \<noteq> ''building_code'' \<Longrightarrow>
     map_of (where_dict_entries nd nt) k \<noteq> None"
  unfolding acceptable_keys_def where_dict_entries_def
  by (elim insertE emptyE) simp_all

lemma where_loop_total:
  "(\<And>k v. (k, v) \<in> set items \<Longrightarrow> k \<noteq> ''building_code'' \<Longrightarrow> map_of wd k \<noteq> None) \<Longrightarrow>
   where_loop wd items w a =
     Inr (w @ concat (map (\<lambda>kv. the (map_of wd (fst kv))) (predicate_items items)),
          a @ concat (map (\<lambda>kv. bound_values (fst kv) (snd kv)) (predicate_items items)))"
proof (induction items arbitrary: w a)
  case Nil
  then show ?case by (simp add: predicate_items_def)
next
  case (Cons kv items)
  obtain k v where kv: "kv = (k, v)" by (cases kv)
  have rest: "map_of wd k \<noteq> None" if "(k, v) \<in> set items" "k \<noteq> ''building_code''" for k v
    using that Cons.prems [of k v] by simp
  show ?case
  proof (cases "k = ''building_code''")
    case True
    then show ?thesis
      using Cons.IH [of w a, OF rest] kv by (simp add: predicate_items_def)
  next
    case False
    then obtain fragment where f: "map_of wd k = Some fragment"
      using Cons.prems [of k v] kv by auto
    show ?thesis
      using Cons.IH [of "w @ fragment" "a @ bound_values k v", OF rest] kv False f
      by (simp add: predicate_items_def)
  qed
qed

lemma section_scoped:
  "0 < card (set (keys a) \<inter> input_vars) \<longleftrightarrow> (\<exists>k \<in> set (keys a). k \<in> input_vars)"
  by (auto simp: card_gt_0_iff)

lemma building_code_scoped: "''building_code'' \<in> input_vars"
  by (simp add: input_vars_def)

lemma map_of_key: "map_of a k = Some v \<Longrightarrow> k \<in> set (keys a)"
  by (auto simp: keys_def dest: map_of_SomeD intro: rev_image_eqI)

lemma fragment_valid:
  "assert_valid_input a = Inr () \<Longrightarrow>
   fragment a k =
     (case map_of (where_dict_entries (length (elems (get a ''day'' (VList []))))
                                      (length (elems (get a ''terms'' (VList []))))) k of
        None \<Rightarrow> [] | Some f \<Rightarrow> f)"
  by (simp add: fragment_def where_dict_valid)

lemma valid_keys: "assert_valid_input a = Inr () \<Longrightarrow> set (keys a) \<subseteq> acceptable_keys"
  unfolding assert_valid_input_Inr_raw by simp

lemma item_key: "(k, v) \<in> set a \<Longrightarrow> k \<in> set (keys a)"
  by (auto simp: keys_def intro: rev_image_eqI)

lemma where_loop_valid:
  assumes valid: "assert_valid_input a = Inr ()"
    and wd: "where_dict a = Inr wd"
  shows "where_loop wd a w a0 =
     Inr (w @ concat (map (\<lambda>kv. fragment a (fst kv)) (predicate_items a)),
          a0 @ concat (map (\<lambda>kv. bound_values (fst kv) (snd kv)) (predicate_items a)))"
proof -
  have wd_eq: "wd = where_dict_entries (length (elems (get a ''day'' (VList []))))
                                       (length (elems (get a ''terms'' (VList []))))"
    using where_dict_valid [OF valid] wd by simp
  have cover: "map_of wd k \<noteq> None" if "(k, v) \<in> set a" "k \<noteq> ''building_code''" for k v
  proof -
    from that(1) have "k \<in> acceptable_keys"
      using valid_keys [OF valid] item_key by blast
    then show ?thesis
      unfolding wd_eq using that(2) by (rule entries_cover)
  qed
  have frag: "map (\<lambda>kv. the (map_of wd (fst kv))) (predicate_items a)
                = map (\<lambda>kv. fragment a (fst kv)) (predicate_items a)"
  proof (rule map_cong [OF refl])
    fix kv assume "kv \<in> set (predicate_items a)"
    then have "(fst kv, snd kv) \<in> set a" and "fst kv \<noteq> ''building_code''"
      by (simp_all add: predicate_items_def)
    then have "map_of wd (fst kv) \<noteq> None" by (rule cover)
    then show "the (map_of wd (fst kv)) = fragment a (fst kv)"
      by (auto simp: fragment_def wd)
  qed
  show ?thesis
    using where_loop_total [of a wd w a0] cover frag by simp
qed

lemma compose_valid:
  assumes valid: "assert_valid_input a = Inr ()"
  shows "compose c a =
    (case select_and_joins c a of
       (Inl e, evs) \<Rightarrow> (Inl e, evs)
     | (Inr (sel, fr, a0), evs) \<Rightarrow>
         (Inr \<lparr>select = sel, frm = fr,
               where_clause = where0 @ concat (map (\<lambda>kv. fragment a (fst kv)) (predicate_items a)),
               args = a0 @ concat (map (\<lambda>kv. bound_values (fst kv) (snd kv)) (predicate_items a))\<rparr>,
          evs))"
proof -
  obtain wd where wd: "where_dict a = Inr wd"
    using where_dict_valid [OF valid] by simp
  show ?thesis
    unfolding compose_def wd
    by (simp add: where_loop_valid [OF valid wd] split: prod.splits sum.splits)
qed

lemma select_and_joins_lookup_empty:
  assumes "map_of a ''building_code'' = Some b" and "c lookup_sql [b] = Inr (description, [])"
  shows "select_and_joins c a = (Inl IndexError, [Execute lookup_sql [b]])"
proof -
  have k: "''building_code'' \<in> set (keys a)"
    using assms(1) by (rule map_of_key)
  then have "0 < card (set (keys a) \<inter> input_vars)"
    unfolding section_scoped using building_code_scoped by blast
  then show ?thesis
    using k assms by (simp add: select_and_joins_def)
qed

lemma find_courses_lookup_empty:
  assumes valid: "assert_valid_input a = Inr ()"
    and b: "map_of a ''building_code'' = Some b"
    and empty: "c lookup_sql [b] = Inr (description, [])"
  shows "find_courses c a =
           (Inl IndexError, [CreateFunction ''time_between'' 4, Execute lookup_sql [b]])"
proof -
  have "a \<noteq> []" using b by auto
  then show ?thesis
    by (simp add: find_courses_def valid compose_valid [OF valid]
        select_and_joins_lookup_empty [where c = c, OF b empty])
qed

lemma key_map_of: "k \<in> set (keys a) \<Longrightarrow> \<exists>v. map_of a k = Some v"
  by (cases "map_of a k") (simp_all add: keys_def map_of_eq_None_iff)

lemma select_and_joins_lookup_ok:
  assumes "\<not> lookup_fails c a"
  shows "\<exists>sel fr a0 evs. select_and_joins c a = (Inr (sel, fr, a0), evs)"
proof (cases "''building_code'' \<in> set (keys a)")
  case True
  then obtain b where b: "map_of a ''building_code'' = Some b"
    using key_map_of by blast
  have scoped: "0 < card (set (keys a) \<inter> input_vars)"
    unfolding section_scoped using True building_code_scoped by blast
  from assms b obtain description r more where "c lookup_sql [b] = Inr (description, r # more)"
    by (cases "c lookup_sql [b]") (auto simp: lookup_fails_def neq_Nil_conv)
  then show ?thesis
    using True b scoped by (simp add: select_and_joins_def)
next
  case False
  then show ?thesis by (simp add: select_and_joins_def)
qed

lemma compose_lookup_ok:
  assumes valid: "assert_valid_input a = Inr ()" and ok: "\<not> lookup_fails c a"
  shows "\<exists>q evs. compose c a = (Inr q, evs)"
proof -
  obtain sel fr a0 evs where "select_and_joins c a = (Inr (sel, fr, a0), evs)"
    using select_and_joins_lookup_ok [OF ok] by blast
  then show ?thesis
    unfolding compose_valid [OF valid] by simp
qed

lemma select_and_joins_lookup_error:
  assumes "map_of a ''building_code'' = Some b" and "c lookup_sql [b] = Inl e"
  shows "select_and_joins c a = (Inl e, [Execute lookup_sql [b]])"
proof -
  have k: "''building_code'' \<in> set (keys a)"
    using assms(1) by (rule map_of_key)
  then have "0 < card (set (keys a) \<inter> input_vars)"
    unfolding section_scoped using building_code_scoped by blast
  then show ?thesis
    using k assms by (simp add: select_and_joins_def)
qed

lemma find_courses_lookup_error:
  assumes valid: "assert_valid_input a = Inr ()"
    and b: "map_of a ''building_code'' = Some b"
    and err: "c lookup_sql [b] = Inl e"
  shows "find_courses c a = (Inl e, [CreateFunction ''time_between'' 4, Execute lookup_sql [b]])"
proof -
  have "a \<noteq> []" using b by auto
  then show ?thesis
    by (simp add: find_courses_def valid compose_valid [OF valid]
        select_and_joins_lookup_error [where c = c, OF b err])
qed

lemma find_courses_lookup_fails:
  assumes valid: "assert_valid_input a = Inr ()" and fails: "lookup_fails c a"
  shows "\<exists>b e. map_of a ''building_code'' = Some b \<and>
           (c lookup_sql [b] = Inl e \<or>
            (\<exists>description. c lookup_sql [b] = Inr (description, [])) \<and> e = IndexError) \<and>
           find_courses c a = (Inl e, [CreateFunction ''time_between'' 4, Execute lookup_sql [b]])"
proof -
  from fails obtain b where b: "map_of a ''building_code'' = Some b"
    by (auto simp: lookup_fails_def split: option.splits)
  show ?thesis
  proof (cases "c lookup_sql [b]")
    case (Inl e)
    have "map_of a ''building_code'' = Some b \<and>
           (c lookup_sql [b] = Inl e \<or>
            (\<exists>description. c lookup_sql [b] = Inr (description, [])) \<and> e = IndexError) \<and>
           find_courses c a = (Inl e, [CreateFunction ''time_between'' 4, Execute lookup_sql [b]])"
      using b Inl find_courses_lookup_error [where c = c, OF valid b Inl] by simp
    then show ?thesis
      by (intro exI)
  next
    case (Inr cur)
    obtain description rows where cur: "cur = (description, rows)" by (cases cur)
    with fails b Inr have empty: "c lookup_sql [b] = Inr (description, [])"
      by (simp add: lookup_fails_def)
    have "map_of a ''building_code'' = Some b \<and>
           (c lookup_sql [b] = Inl IndexError \<or>
            (\<exists>description. c lookup_sql [b] = Inr (description, [])) \<and> IndexError = IndexError) \<and>
           find_courses c a
             = (Inl IndexError, [CreateFunction ''time_between'' 4, Execute lookup_sql [b]])"
      using b empty find_courses_lookup_empty [where c = c, OF valid b empty] by simp
    then show ?thesis
      by (intro exI)
  qed
qed

text \<open>
  Claim C7, as the code has it: when the criteria pass validation and the lookup for their
  \<^verbatim>\<open>building_code\<close> yields no row, \<^verbatim>\<open>find_courses\<close> raises \<^verbatim>\<open>IndexError\<close> (from
  \<^verbatim>\<open>fetchall()[0]\<close>), which is not the validator's \<^verbatim>\<open>AssertionError\<close>, and the lookup
  is the only statement executed: the composed query never runs.
\<close>

theorem lookup_failure_raises_index_error:
  assumes "assert_valid_input a = Inr ()"
    and "map_of a ''building_code'' = Some b"
    and "c lookup_sql [b] = Inr (description, [])"
  shows "fst (find_courses c a) = Inl IndexError \<and>
         IndexError \<noteq> AssertionError \<and>
         snd (find_courses c a) = [CreateFunction ''time_between'' 4, Execute lookup_sql [b]]"
  using find_courses_lookup_empty [where c = c, OF assms] by simp

lemma valid_building_query:
  "assert_valid_input [(''building_code'', VStr ''XX''), (''walking_time'', VInt 10)] = Inr ()"
  by (simp add: assert_valid_input_def assert_then_def get_def has_key_def keys_def
      acceptable_keys_def)

lemma sample_store_unknown:
  "sample_store lookup_sql [VStr ''XX''] = Inr ([Descriptor ''lon'' [], Descriptor ''lat'' []], [])"
  by (simp add: sample_store_def)

text \<open>A building the sample store does not know.\<close>

theorem lookup_failure_raises_index_error_witness:
  "fst (find_courses sample_store [(''building_code'', VStr ''XX''), (''walking_time'', VInt 10)])
     = Inl IndexError \<and>
   snd (find_courses sample_store [(''building_code'', VStr ''XX''), (''walking_time'', VInt 10)])
     = [CreateFunction ''time_between'' 4, Execute lookup_sql [VStr ''XX'']]"
  using lookup_failure_raises_index_error [where c = sample_store, OF valid_building_query _ sample_store_unknown]
  by simp

text \<open>
  Claim C7 as stated fails: what surfaces for an unknown building is the bare
  \<^verbatim>\<open>IndexError\<close> of the list subscript, not a dedicated lookup error.
\<close>

theorem lookup_failure_counterexample:
  "find_courses sample_store [(''walking_time'', VInt 5), (''building_code'', VStr ''ZZ'')]
     = (Inl IndexError, [CreateFunction ''time_between'' 4, Execute lookup_sql [VStr ''ZZ'']])"
proof -
  have v: "assert_valid_input [(''walking_time'', VInt 5), (''building_code'', VStr ''ZZ'')] = Inr ()"
    by (simp add: assert_valid_input_def assert_then_def get_def has_key_def keys_def
        acceptable_keys_def)
  have s: "sample_store lookup_sql [VStr ''ZZ'']
             = Inr ([Descriptor ''lon'' [], Descriptor ''lat'' []], [])"
    by (simp add: sample_store_def)
  show ?thesis
    using find_courses_lookup_empty [where c = sample_store, OF v _ s] by simp
qed

lemmas sql_text = select0_def add_select1_def add_select2_def frm0_def add_joins_def where0_def
  nl_def

lemma joins_in_joined_from:
  "sublist ''JOIN sections'' (frm0 @ add_joins)"
  "sublist ''JOIN meeting_patterns'' (frm0 @ add_joins)"
  "sublist ''JOIN gps'' (frm0 @ add_joins)"
  by (simp_all add: sql_text sublist_Cons_right)

lemma no_join_in_plain_from:
  "\<not> sublist ''JOIN sections'' frm0"
  "\<not> sublist ''JOIN meeting_patterns'' frm0"
  "\<not> sublist ''JOIN gps'' frm0"
  by (simp_all add: sql_text sublist_Cons_right)

lemma walking_time_column:
  "sublist ''AS walking_time'' (select0 @ add_select1 @ add_select2)"
  "\<not> sublist ''AS walking_time'' (select0 @ add_select1)"
  "\<not> sublist ''AS walking_time'' select0"
  by (simp_all add: sql_text sublist_Cons_right)

lemma input_vars_split:
  "k \<in> input_vars \<Longrightarrow> k \<in> section_keys \<or> k = ''section_num'' \<or> k = ''building_code''"
  unfolding input_vars_def section_keys_def
  by (elim insertE emptyE) simp_all

lemma section_keys_scoped: "k \<in> section_keys \<Longrightarrow> k \<in> input_vars"
  unfolding input_vars_def section_keys_def
  by (elim insertE emptyE) simp_all

lemma section_num_unknown: "''section_num'' \<notin> acceptable_keys"
  by (simp add: acceptable_keys_def)

lemma walking_time_section: "''walking_time'' \<in> section_keys"
  by (simp add: section_keys_def)

lemma building_code_not_section: "''building_code'' \<notin> section_keys"
  by (simp add: section_keys_def)

lemma valid_building_pair:
  "assert_valid_input a = Inr () \<Longrightarrow>
     (''building_code'' \<in> set (keys a)) = (''walking_time'' \<in> set (keys a))"
  unfolding assert_valid_input_Inr_raw has_key_def by blast

lemma scoped_valid:
  assumes valid: "assert_valid_input a = Inr ()"
  shows "(\<exists>k \<in> set (keys a). k \<in> input_vars) = (\<exists>k \<in> set (keys a). k \<in> section_keys)"
proof
  assume "\<exists>k \<in> set (keys a). k \<in> input_vars"
  then obtain k where k: "k \<in> set (keys a)" "k \<in> input_vars" by blast
  have acc: "k \<in> acceptable_keys"
    using valid_keys [OF valid] k(1) by blast
  from input_vars_split [OF k(2)] show "\<exists>k \<in> set (keys a). k \<in> section_keys"
  proof (elim disjE)
    assume "k \<in> section_keys"
    with k(1) show ?thesis by blast
  next
    assume "k = ''section_num''"
    with acc section_num_unknown show ?thesis by simp
  next
    assume "k = ''building_code''"
    with k(1) valid_building_pair [OF valid] have "''walking_time'' \<in> set (keys a)" by simp
    with walking_time_section show ?thesis by blast
  qed
next
  assume "\<exists>k \<in> set (keys a). k \<in> section_keys"
  then show "\<exists>k \<in> set (keys a). k \<in> input_vars"
    using section_keys_scoped by blast
qed

lemma select_and_joins_shape:
  assumes "select_and_joins c a = (Inr (sel, fr, a0), evs)"
  shows "(\<not> (\<exists>k \<in> set (keys a). k \<in> input_vars) \<and> sel = select0 \<and> fr = frm0 \<and> a0 = [] \<and> evs = []) \<or>
         ((\<exists>k \<in> set (keys a). k \<in> input_vars) \<and> ''building_code'' \<notin> set (keys a) \<and>
            sel = select0 @ add_select1 \<and> fr = frm0 @ add_joins \<and> a0 = [] \<and> evs = []) \<or>
         ((\<exists>k \<in> set (keys a). k \<in> input_vars) \<and> ''building_code'' \<in> set (keys a) \<and>
            sel = select0 @ add_select1 @ add_select2 \<and> fr = frm0 @ add_joins \<and>
            (\<exists>b description more.
               map_of a ''building_code'' = Some b \<and>
               c lookup_sql [b] = Inr (description, a0 # more) \<and>
               evs = [Execute lookup_sql [b]]))"
  using assms unfolding select_and_joins_def section_scoped
  by (simp split: if_splits option.splits sum.splits list.splits prod.splits)

lemma compose_parts:
  assumes valid: "assert_valid_input a = Inr ()"
    and q: "compose c a = (Inr q, evs)"
  shows "\<exists>a0. select_and_joins c a = (Inr (select q, frm q, a0), evs) \<and>
           where_clause q = where0 @ concat (map (\<lambda>kv. fragment a (fst kv)) (predicate_items a)) \<and>
           args q = a0 @ concat (map (\<lambda>kv. bound_values (fst kv) (snd kv)) (predicate_items a))"
  using q unfolding compose_valid [OF valid]
  by (auto split: prod.splits sum.splits)

text \<open>
  Claim C2, as the code has it: for validated criteria whose query is composed, the joins
  to sections, to meeting patterns AND to gps are in the from clause exactly when a
  section-scoped key (enrollment, time_start, time_end, day, walking_time) is present:
  the three joins are one literal, \<^verbatim>\<open>add_joins\<close>. The derived \<^verbatim>\<open>walking_time\<close> column is
  selected exactly when \<^verbatim>\<open>building_code\<close> is present.
\<close>

theorem join_set_by_keys:
  assumes valid: "assert_valid_input a = Inr ()"
    and q: "compose c a = (Inr q, evs)"
  shows "sublist ''JOIN sections'' (frm q) = (\<exists>k \<in> set (keys a). k \<in> section_keys) \<and>
         sublist ''JOIN meeting_patterns'' (frm q) = (\<exists>k \<in> set (keys a). k \<in> section_keys) \<and>
         sublist ''JOIN gps'' (frm q) = (\<exists>k \<in> set (keys a). k \<in> section_keys) \<and>
         sublist ''AS walking_time'' (select q) = (''building_code'' \<in> set (keys a))"
proof -
  obtain a0 where sj: "select_and_joins c a = (Inr (select q, frm q, a0), evs)"
    using compose_parts [OF valid q] by blast
  note sc = scoped_valid [OF valid, symmetric]
  from select_and_joins_shape [OF sj] show ?thesis
  proof (elim disjE conjE)
    assume n: "\<not> (\<exists>k \<in> set (keys a). k \<in> input_vars)" and s: "select q = select0" "frm q = frm0"
    have "''building_code'' \<notin> set (keys a)"
      using n building_code_scoped by blast
    then show ?thesis
      unfolding sc s using n no_join_in_plain_from walking_time_column by simp
  next
    assume y: "\<exists>k \<in> set (keys a). k \<in> input_vars" and b: "''building_code'' \<notin> set (keys a)"
      and s: "select q = select0 @ add_select1" "frm q = frm0 @ add_joins"
    show ?thesis
      unfolding sc s using y b joins_in_joined_from walking_time_column by simp
  next
    assume y: "\<exists>k \<in> set (keys a). k \<in> input_vars" and b: "''building_code'' \<in> set (keys a)"
      and s: "select q = select0 @ add_select1 @ add_select2" "frm q = frm0 @ add_joins"
    show ?thesis
      unfolding sc s using y b joins_in_joined_from walking_time_column by simp
  qed
qed

lemma valid_time_start: "assert_valid_input [(''time_start'', VInt 900)] = Inr ()"
  by (simp add: assert_valid_input_def assert_then_def get_def has_key_def keys_def
      acceptable_keys_def)

lemma valid_walk:
  "assert_valid_input [(''building_code'', VStr ''RY''), (''walking_time'', VInt 10)] = Inr ()"
  by (simp add: assert_valid_input_def assert_then_def get_def has_key_def keys_def
      acceptable_keys_def)

lemma compose_time_start:
  "compose c [(''time_start'', VInt 900)] =
     (Inr \<lparr>select = select0 @ add_select1, frm = frm0 @ add_joins,
           where_clause = where0 @ '' AND meeting_patterns.time_start >= ?'',
           args = [VInt 900]\<rparr>, [])"
  unfolding compose_valid [OF valid_time_start]
  by (simp add: select_and_joins_def section_scoped keys_def input_vars_def predicate_items_def
      fragment_def where_dict_def get_def where_dict_entries_def)

lemma compose_walk:
  "compose sample_store [(''building_code'', VStr ''RY''), (''walking_time'', VInt 10)] =
     (Inr \<lparr>select = select0 @ add_select1 @ add_select2, frm = frm0 @ add_joins,
           where_clause = where0 @ '' AND walking_time <= ?'',
           args = [VFloat (- 87.6), VFloat 41.79, VInt 10]\<rparr>,
      [Execute lookup_sql [VStr ''RY'']])"
  unfolding compose_valid [OF valid_walk]
  by (simp add: select_and_joins_def section_scoped keys_def input_vars_def predicate_items_def
      fragment_def where_dict_def get_def where_dict_entries_def sample_store_def)

text \<open>A reference building and a walking time: all three joins and the derived column.\<close>

theorem join_set_by_keys_witness:
  "sublist ''JOIN sections'' (frm0 @ add_joins) \<and>
   sublist ''JOIN meeting_patterns'' (frm0 @ add_joins) \<and>
   sublist ''JOIN gps'' (frm0 @ add_joins) \<and>
   sublist ''AS walking_time'' (select0 @ add_select1 @ add_select2)"
  using join_set_by_keys [OF valid_walk compose_walk]
  by (simp add: keys_def section_keys_def)

text \<open>
  Claim C2 as stated fails: \<^verbatim>\<open>time_start\<close> alone, with no \<^verbatim>\<open>building_code\<close>, already
  brings the gps join into the from clause.
\<close>

theorem building_join_counterexample:
  "assert_valid_input [(''time_start'', VInt 900)] = Inr () \<and>
   ''building_code'' \<notin> set (keys [(''time_start'', VInt 900)]) \<and>
   frm (projr (fst (compose sample_store [(''time_start'', VInt 900)]))) = frm0 @ add_joins \<and>
   sublist ''JOIN gps'' (frm0 @ add_joins)"
  by (simp add: valid_time_start compose_time_start keys_def joins_in_joined_from)

lemma join_chars:
  "c \<notin> set sep \<Longrightarrow> (\<And>x. x \<in> set xs \<Longrightarrow> c \<notin> set x) \<Longrightarrow> c \<notin> set (join sep xs)"
  by (induction sep xs rule: join.induct) auto

lemma no_x_in_placeholders: "CHR ''x'' \<notin> set (placeholders n)"
  unfolding placeholders_def by (rule join_chars) auto

lemma no_x_in_fixed_text:
  "CHR ''x'' \<notin> set select0" "CHR ''x'' \<notin> set add_select1" "CHR ''x'' \<notin> set add_select2"
  "CHR ''x'' \<notin> set frm0" "CHR ''x'' \<notin> set add_joins" "CHR ''x'' \<notin> set where0"
  by (simp_all add: sql_text)

lemma no_x_in_other_fragments:
  assumes "k \<noteq> ''terms''"
  shows "CHR ''x'' \<notin> set (case map_of (where_dict_entries nd nt) k of None \<Rightarrow> [] | Some f \<Rightarrow> f)"
  using assms by (simp add: where_dict_entries_def no_x_in_placeholders)

lemma no_x_in_fragment:
  "assert_valid_input a = Inr () \<Longrightarrow> k \<noteq> ''terms'' \<Longrightarrow> CHR ''x'' \<notin> set (fragment a k)"
  by (simp only: fragment_valid no_x_in_other_fragments not_False_eq_True)

lemma terms_fragment_text: "sublist ''catalog_index'' (where_terms p)"
  by (simp add: where_terms_def nl_def sublist_Cons_right)

lemma terms_fragment:
  "assert_valid_input a = Inr () \<Longrightarrow>
   fragment a ''terms'' = where_terms (placeholders (length (elems (get a ''terms'' (VList [])))))"
  by (simp add: fragment_valid where_dict_entries_def)

lemma sublist_trans: "sublist xs ys \<Longrightarrow> sublist ys zs \<Longrightarrow> sublist xs zs"
  unfolding sublist_def by (metis append.assoc)

lemma sublist_concat: "x \<in> set xs \<Longrightarrow> sublist x (concat xs)"
proof -
  assume "x \<in> set xs"
  then obtain as bs where "xs = as @ x # bs" by (auto dest: split_list)
  then have "concat xs = concat as @ x @ concat bs" by simp
  then show ?thesis by (simp only: sublist_appendI)
qed

lemma key_item: "k \<in> set (keys a) \<Longrightarrow> \<exists>v. (k, v) \<in> set a"
  by (auto simp: keys_def)

lemma fragment_in_where:
  assumes valid: "assert_valid_input a = Inr ()"
    and q: "compose c a = (Inr q, evs)"
    and k: "k \<in> set (keys a)" "k \<noteq> ''building_code''"
  shows "sublist (fragment a k) (where_clause q)"
proof -
  obtain v where "(k, v) \<in> set a" using key_item [OF k(1)] by blast
  with k(2) have "(k, v) \<in> set (predicate_items a)" by (simp add: predicate_items_def)
  then have "fragment a k \<in> set (map (\<lambda>kv. fragment a (fst kv)) (predicate_items a))"
    by force
  then have "sublist (fragment a k) (concat (map (\<lambda>kv. fragment a (fst kv)) (predicate_items a)))"
    by (rule sublist_concat)
  moreover have "where_clause q = where0 @ concat (map (\<lambda>kv. fragment a (fst kv)) (predicate_items a))"
    using compose_parts [OF valid q] by blast
  ultimately show ?thesis
    by (metis sublist_append_leftI sublist_trans)
qed

lemma no_x_in_where:
  assumes valid: "assert_valid_input a = Inr ()"
    and q: "compose c a = (Inr q, evs)"
    and t: "''terms'' \<notin> set (keys a)"
  shows "CHR ''x'' \<notin> set (where_clause q)"
proof -
  have w: "where_clause q = where0 @ concat (map (\<lambda>kv. fragment a (fst kv)) (predicate_items a))"
    using compose_parts [OF valid q] by blast
  have "CHR ''x'' \<notin> set (fragment a (fst kv))" if "kv \<in> set (predicate_items a)" for kv
  proof -
    from that have "(fst kv, snd kv) \<in> set a" by (simp add: predicate_items_def)
    then have "fst kv \<in> set (keys a)" by (rule item_key)
    with t have "fst kv \<noteq> ''terms''" by auto
    then show ?thesis by (rule no_x_in_fragment [OF valid])
  qed
  then show ?thesis
    unfolding w using no_x_in_fixed_text(6) by auto
qed

lemma no_x_in_select_from:
  assumes valid: "assert_valid_input a = Inr ()"
    and q: "compose c a = (Inr q, evs)"
  shows "CHR ''x'' \<notin> set (select q) \<and> CHR ''x'' \<notin> set (frm q)"
proof -
  obtain a0 where sj: "select_and_joins c a = (Inr (select q, frm q, a0), evs)"
    using compose_parts [OF valid q] by blast
  from select_and_joins_shape [OF sj] show ?thesis
    using no_x_in_fixed_text by (elim disjE conjE) simp_all
qed

text \<open>
  Claim C9, as the code has it: for validated criteria whose query is composed, the text
  of the query holds the \<^verbatim>\<open>catalog_index\<close> subquery exactly when \<^verbatim>\<open>terms\<close> is a key of the
  criteria. With \<^verbatim>\<open>terms\<close> absent there is no text filter: the empty-string default
  is read by the validator only.
\<close>

theorem text_predicate_iff_terms_present:
  assumes valid: "assert_valid_input a = Inr ()"
    and q: "compose c a = (Inr q, evs)"
  shows "sublist ''catalog_index'' (query q) = (''terms'' \<in> set (keys a))"
proof (cases "''terms'' \<in> set (keys a)")
  case True
  have "sublist (fragment a ''terms'') (where_clause q)"
    using fragment_in_where [OF valid q True] by simp
  then have "sublist ''catalog_index'' (where_clause q)"
    using terms_fragment_text unfolding terms_fragment [OF valid] by (rule sublist_trans [rotated])
  moreover have "sublist (where_clause q) (query q)"
    unfolding query_def by (metis sublist_append_leftI append.assoc)
  ultimately show ?thesis
    using True sublist_trans by blast
next
  case False
  have "CHR ''x'' \<notin> set (query q)"
    unfolding query_def
    using no_x_in_where [OF valid q False] no_x_in_select_from [OF valid q] by simp
  moreover have "CHR ''x'' \<in> set ''catalog_index''" by simp
  ultimately have "\<not> sublist ''catalog_index'' (query q)"
    using set_mono_sublist by blast
  with False show ?thesis by simp
qed

lemma valid_dept: "assert_valid_input [(''dept'', VStr ''CMSC'')] = Inr ()"
  by (simp add: assert_valid_input_def assert_then_def get_def has_key_def keys_def
      acceptable_keys_def)

lemma valid_terms: "assert_valid_input [(''terms'', VList [VStr ''quantum''])] = Inr ()"
  by (simp add: assert_valid_input_def assert_then_def get_def has_key_def keys_def
      acceptable_keys_def)

lemma valid_empty_day: "assert_valid_input [(''day'', VList [])] = Inr ()"
  by (simp add: assert_valid_input_def assert_then_def get_def has_key_def keys_def
      acceptable_keys_def)

lemma compose_dept:
  "compose c [(''dept'', VStr ''CMSC'')] =
     (Inr \<lparr>select = select0, frm = frm0, where_clause = where0 @ '' AND courses.dept = ?'',
           args = [VStr ''CMSC'']\<rparr>, [])"
  unfolding compose_valid [OF valid_dept]
  by (simp add: select_and_joins_def section_scoped keys_def input_vars_def predicate_items_def
      fragment_def where_dict_def get_def where_dict_entries_def)

lemma compose_terms:
  "compose c [(''terms'', VList [VStr ''quantum''])] =
     (Inr \<lparr>select = select0, frm = frm0, where_clause = where0 @ where_terms ''?'',
           args = [VStr ''quantum'', VInt 1]\<rparr>, [])"
  unfolding compose_valid [OF valid_terms]
  by (simp add: select_and_joins_def section_scoped keys_def input_vars_def predicate_items_def
      fragment_def where_dict_def get_def where_dict_entries_def placeholders_def)

lemma compose_empty_day:
  "compose c [(''day'', VList [])] =
     (Inr \<lparr>select = select0 @ add_select1, frm = frm0 @ add_joins,
           where_clause = where0 @ '' AND meeting_patterns.day IN ()'', args = []\<rparr>, [])"
  unfolding compose_valid [OF valid_empty_day]
  by (simp add: select_and_joins_def section_scoped keys_def input_vars_def predicate_items_def
      fragment_def where_dict_def get_def where_dict_entries_def placeholders_def)

text \<open>One search term: the subquery is in the composed text.\<close>

theorem text_predicate_iff_terms_present_witness:
  "sublist ''catalog_index'' (select0 @ frm0 @ where0 @ where_terms ''?'')"
  using text_predicate_iff_terms_present [OF valid_terms compose_terms]
  by (simp add: query_def keys_def)

text \<open>
  Claim C9 as stated fails: for \<^verbatim>\<open>dept\<close> alone the where clause is the department
  predicate only, the one parameter is the department, and the query text has no
  \<^verbatim>\<open>catalog_index\<close> subquery.
\<close>

theorem absent_terms_counterexample:
  "assert_valid_input [(''dept'', VStr ''CMSC'')] = Inr () \<and>
   ''terms'' \<notin> set (keys [(''dept'', VStr ''CMSC'')]) \<and>
   where_clause (projr (fst (compose sample_store [(''dept'', VStr ''CMSC'')])))
     = where0 @ '' AND courses.dept = ?'' \<and>
   args (projr (fst (compose sample_store [(''dept'', VStr ''CMSC'')]))) = [VStr ''CMSC''] \<and>
   \<not> sublist ''catalog_index''
       (query (projr (fst (compose sample_store [(''dept'', VStr ''CMSC'')]))))"
proof -
  have "\<not> sublist ''catalog_index'' (select0 @ frm0 @ where0 @ '' AND courses.dept = ?'')"
    by (simp add: sql_text sublist_Cons_right)
  then show ?thesis
    by (simp add: valid_dept compose_dept keys_def query_def)
qed

lemma find_courses_composed:
  assumes valid: "assert_valid_input a = Inr ()"
    and ne: "a \<noteq> []"
    and q: "compose c a = (Inr q, evs)"
  shows "find_courses c a =
    (case c (query q) (args q) of
       Inl e \<Rightarrow> Inl e
     | Inr (description, rows) \<Rightarrow> Inr (get_header description, rows),
     CreateFunction ''time_between'' 4 # evs @ [Execute (query q) (args q)])"
  using ne by (simp add: find_courses_def valid q split: sum.splits prod.splits)

lemma day_fragment:
  assumes valid: "assert_valid_input a = Inr ()" and d: "map_of a ''day'' = Some (VList xs)"
  shows "fragment a ''day'' = '' AND meeting_patterns.day IN ('' @ placeholders (length xs) @ '')''"
  using d by (simp add: fragment_valid [OF valid] where_dict_entries_def get_def)

lemma lookup_events:
  assumes "select_and_joins c a = (Inr (sel, fr, a0), evs)"
  shows "evs = [] \<or>
         (\<exists>b. map_of a ''building_code'' = Some b \<and> evs = [Execute lookup_sql [b]])"
  using select_and_joins_shape [OF assms] by (elim disjE conjE exE) simp_all

lemma item_split:
  assumes valid: "assert_valid_input a = Inr ()"
    and q: "compose c a = (Inr q, evs)"
    and item: "(k, v) \<in> set a" and k: "k \<noteq> ''building_code''"
  shows "\<exists>a0 xs ys.
           select_and_joins c a = (Inr (select q, frm q, a0), evs) \<and>
           predicate_items a = xs @ (k, v) # ys \<and>
           where_clause q = where0 @ concat (map (\<lambda>kv. fragment a (fst kv)) xs) @ fragment a k
                              @ concat (map (\<lambda>kv. fragment a (fst kv)) ys) \<and>
           args q = a0 @ concat (map (\<lambda>kv. bound_values (fst kv) (snd kv)) xs) @ bound_values k v
                      @ concat (map (\<lambda>kv. bound_values (fst kv) (snd kv)) ys)"
proof -
  from item k have "(k, v) \<in> set (predicate_items a)" by (simp add: predicate_items_def)
  then obtain xs ys where s: "predicate_items a = xs @ (k, v) # ys"
    by (auto dest: split_list)
  obtain a0 where sj: "select_and_joins c a = (Inr (select q, frm q, a0), evs)"
    and w: "where_clause q = where0 @ concat (map (\<lambda>kv. fragment a (fst kv)) (predicate_items a))"
    and ar: "args q = a0 @ concat (map (\<lambda>kv. bound_values (fst kv) (snd kv)) (predicate_items a))"
    using compose_parts [OF valid q] by blast
  have "where_clause q = where0 @ concat (map (\<lambda>kv. fragment a (fst kv)) xs) @ fragment a k
                              @ concat (map (\<lambda>kv. fragment a (fst kv)) ys)"
    unfolding w s by simp
  moreover have "args q = a0 @ concat (map (\<lambda>kv. bound_values (fst kv) (snd kv)) xs) @ bound_values k v
                      @ concat (map (\<lambda>kv. bound_values (fst kv) (snd kv)) ys)"
    unfolding ar s by simp
  ultimately show ?thesis using sj s by blast
qed

text \<open>
  Claim C10, as the code has it: when validated criteria bind \<^verbatim>\<open>day\<close> to the empty list,
  \<^verbatim>\<open>find_courses\<close> does one of two things. If the criteria hold a \<^verbatim>\<open>building_code\<close>
  and its lookup fails, the call raises there, with the store's error or with
  \<^verbatim>\<open>IndexError\<close> for no row, and the lookup is the only statement executed. Otherwise a
  query is composed: at the place of the \<^verbatim>\<open>day\<close> criterion its where clause holds the
  predicate with the empty list \<^verbatim>\<open>IN ()\<close>, the criterion binds no parameter, the query is
  handed to the store once, after the lookup if there is one and after nothing else, and the
  call returns or raises what the store answers: past the lookup the code adds no failure
  of its own.
\<close>

theorem empty_day_in_clause:
  assumes valid: "assert_valid_input a = Inr ()"
    and d: "map_of a ''day'' = Some (VList [])"
  shows "if lookup_fails c a
         then (\<exists>b e. map_of a ''building_code'' = Some b \<and>
                 (c lookup_sql [b] = Inl e \<or>
                  (\<exists>description. c lookup_sql [b] = Inr (description, [])) \<and> e = IndexError) \<and>
                 find_courses c a =
                   (Inl e, [CreateFunction ''time_between'' 4, Execute lookup_sql [b]]))
         else (\<exists>q evs a0 xs ys.
            compose c a = (Inr q, evs) \<and>
            select_and_joins c a = (Inr (select q, frm q, a0), evs) \<and>
            (evs = [] \<or>
             (\<exists>b. map_of a ''building_code'' = Some b \<and> evs = [Execute lookup_sql [b]])) \<and>
            predicate_items a = xs @ (''day'', VList []) # ys \<and>
            where_clause q = where0 @ concat (map (\<lambda>kv. fragment a (fst kv)) xs)
                               @ '' AND meeting_patterns.day IN ()''
                               @ concat (map (\<lambda>kv. fragment a (fst kv)) ys) \<and>
            sublist '' AND meeting_patterns.day IN ()'' (where_clause q) \<and>
            bound_values ''day'' (VList []) = [] \<and>
            args q = a0 @ concat (map (\<lambda>kv. bound_values (fst kv) (snd kv)) xs)
                       @ concat (map (\<lambda>kv. bound_values (fst kv) (snd kv)) ys) \<and>
            find_courses c a =
              (case c (query q) (args q) of
                 Inl e \<Rightarrow> Inl e
               | Inr (description, rows) \<Rightarrow> Inr (get_header description, rows),
               CreateFunction ''time_between'' 4 # evs @ [Execute (query q) (args q)]))"
proof (cases "lookup_fails c a")
  case True
  from find_courses_lookup_fails [OF valid True] True show ?thesis
    by (simp only: if_True)
next
  case False
  obtain q evs where q: "compose c a = (Inr q, evs)"
    using compose_lookup_ok [OF valid False] by blast
  have item: "(''day'', VList []) \<in> set a" using d by (rule map_of_SomeD)
  have ne: "a \<noteq> []" using item by auto
  have k: "''day'' \<in> set (keys a)" using d by (rule map_of_key)
  have f: "fragment a ''day'' = '' AND meeting_patterns.day IN ()''"
    using day_fragment [OF valid d] by (simp add: placeholders_def)
  have nb: "''day'' \<noteq> ''building_code''" by simp
  from item_split [OF valid q item nb]
  obtain a0 xs ys where sj: "select_and_joins c a = (Inr (select q, frm q, a0), evs)"
    and s: "predicate_items a = xs @ (''day'', VList []) # ys"
    and w: "where_clause q = where0 @ concat (map (\<lambda>kv. fragment a (fst kv)) xs)
                               @ fragment a ''day''
                               @ concat (map (\<lambda>kv. fragment a (fst kv)) ys)"
    and ar: "args q = a0 @ concat (map (\<lambda>kv. bound_values (fst kv) (snd kv)) xs)
                       @ bound_values ''day'' (VList [])
                       @ concat (map (\<lambda>kv. bound_values (fst kv) (snd kv)) ys)"
    by (elim exE conjE) (rule that)
  have w': "where_clause q = where0 @ concat (map (\<lambda>kv. fragment a (fst kv)) xs)
                               @ '' AND meeting_patterns.day IN ()''
                               @ concat (map (\<lambda>kv. fragment a (fst kv)) ys)"
    using w unfolding f .
  have sub: "sublist '' AND meeting_patterns.day IN ()'' (where_clause q)"
    using fragment_in_where [OF valid q k] unfolding f by simp
  have ar': "args q = a0 @ concat (map (\<lambda>kv. bound_values (fst kv) (snd kv)) xs)
                       @ concat (map (\<lambda>kv. bound_values (fst kv) (snd kv)) ys)"
    using ar by simp
  have fc: "find_courses c a =
              (case c (query q) (args q) of
                 Inl e \<Rightarrow> Inl e
               | Inr (description, rows) \<Rightarrow> Inr (get_header description, rows),
               CreateFunction ''time_between'' 4 # evs @ [Execute (query q) (args q)])"
    using find_courses_composed [OF valid ne q] .
  have bv: "bound_values ''day'' (VList []) = []" by simp
  have ev: "evs = [] \<or>
            (\<exists>b. map_of a ''building_code'' = Some b \<and> evs = [Execute lookup_sql [b]])"
    using sj by (rule lookup_events)
  have "\<exists>q evs a0 xs ys.
            compose c a = (Inr q, evs) \<and>
            select_and_joins c a = (Inr (select q, frm q, a0), evs) \<and>
            (evs = [] \<or>
             (\<exists>b. map_of a ''building_code'' = Some b \<and> evs = [Execute lookup_sql [b]])) \<and>
            predicate_items a = xs @ (''day'', VList []) # ys \<and>
            where_clause q = where0 @ concat (map (\<lambda>kv. fragment a (fst kv)) xs)
                               @ '' AND meeting_patterns.day IN ()''
                               @ concat (map (\<lambda>kv. fragment a (fst kv)) ys) \<and>
            sublist '' AND meeting_patterns.day IN ()'' (where_clause q) \<and>
            bound_values ''day'' (VList []) = [] \<and>
            args q = a0 @ concat (map (\<lambda>kv. bound_values (fst kv) (snd kv)) xs)
                       @ concat (map (\<lambda>kv. bound_values (fst kv) (snd kv)) ys) \<and>
            find_courses c a =
              (case c (query q) (args q) of
                 Inl e \<Rightarrow> Inl e
               | Inr (description, rows) \<Rightarrow> Inr (get_header description, rows),
               CreateFunction ''time_between'' 4 # evs @ [Execute (query q) (args q)])"
    apply (rule exI [of _ q], rule exI [of _ evs], rule exI [of _ a0], rule exI [of _ xs],
        rule exI [of _ ys])
    apply (intro conjI)
            apply (rule q)
           apply (rule sj)
          apply (rule ev)
         apply (rule s)
        apply (rule w')
       apply (rule sub)
      apply (rule bv)
     apply (rule ar')
    apply (rule fc)
    done
  with False show ?thesis by (simp only: if_False)
qed

lemma valid_empty_day_building:
  "assert_valid_input
     [(''day'', VList []), (''building_code'', VStr ''ZZ''), (''walking_time'', VInt 5)] = Inr ()"
  by (simp add: assert_valid_input_def assert_then_def get_def has_key_def keys_def
      acceptable_keys_def)

text \<open>
  The empty day list alone against a store that rejects every statement, and with a
  building the sample store does not know.
\<close>

theorem empty_day_in_clause_witness:
  "find_courses (\<lambda>q ps. Inl (StoreError ''syntax error near IN ()'')) [(''day'', VList [])] =
     (Inl (StoreError ''syntax error near IN ()''),
      [CreateFunction ''time_between'' 4,
       Execute (select0 @ add_select1 @ frm0 @ add_joins @ where0 @ '' AND meeting_patterns.day IN ()'') []]) \<and>
   find_courses sample_store
     [(''day'', VList []), (''building_code'', VStr ''ZZ''), (''walking_time'', VInt 5)] =
     (Inl IndexError, [CreateFunction ''time_between'' 4, Execute lookup_sql [VStr ''ZZ'']])"
proof -
  have l1: "\<not> lookup_fails (\<lambda>q ps. Inl (StoreError ''syntax error near IN ()'')) [(''day'', VList [])]"
    by (simp add: lookup_fails_def)
  have l2: "lookup_fails sample_store
     [(''day'', VList []), (''building_code'', VStr ''ZZ''), (''walking_time'', VInt 5)]"
    by (simp add: lookup_fails_def sample_store_def)
  have s: "sample_store lookup_sql [VStr ''ZZ'']
             = Inr ([Descriptor ''lon'' [], Descriptor ''lat'' []], [])"
    by (simp add: sample_store_def)
  show ?thesis
    using empty_day_in_clause [OF valid_empty_day,
            of "\<lambda>q ps. Inl (StoreError ''syntax error near IN ()'')"]
      empty_day_in_clause [OF valid_empty_day_building, of sample_store] l1 l2
    by (simp add: compose_empty_day query_def s) (elim exE conjE)
qed

text \<open>
  Claim C10 as stated fails: against a store that accepts an empty \<^verbatim>\<open>IN ()\<close> list, as
  SQLite documents it does, the call returns a header and no row, not an error.
\<close>

theorem empty_day_counterexample:
  "assert_valid_input [(''day'', VList [])] = Inr () \<and>
   fst (find_courses sample_store [(''day'', VList [])])
     = Inr ([''dept'', ''course_num'', ''title''], [])"
proof -
  have "lookup_sql \<noteq> select0 @ add_select1 @ frm0 @ add_joins @ where0 @ '' AND meeting_patterns.day IN ()''"
    by (simp add: lookup_sql_def sql_text)
  then show ?thesis
    using find_courses_composed [OF valid_empty_day _ compose_empty_day, of sample_store]
    by (simp add: valid_empty_day query_def sample_store_def get_header_def)
qed

lemma count_placeholders_Suc:
  "count_list (join '', '' (replicate (Suc n) ''?'')) (CHR ''?'') = Suc n"
  by (induction n) simp_all

lemma count_placeholders: "count_list (placeholders n) (CHR ''?'') = n"
proof (cases n)
  case 0
  then show ?thesis by (simp add: placeholders_def)
next
  case (Suc m)
  then show ?thesis
    unfolding placeholders_def by (simp only: count_placeholders_Suc)
qed

lemma count_fixed_text:
  "count_list select0 (CHR ''?'') = 0" "count_list add_select1 (CHR ''?'') = 0"
  "count_list add_select2 (CHR ''?'') = 2" "count_list frm0 (CHR ''?'') = 0"
  "count_list add_joins (CHR ''?'') = 0" "count_list where0 (CHR ''?'') = 0"
  by (simp_all add: sql_text)

lemma count_where_terms: "count_list (where_terms p) (CHR ''?'') = count_list p (CHR ''?'') + 1"
  by (simp add: where_terms_def nl_def)

lemma count_concat:
  "(\<And>x. x \<in> set xs \<Longrightarrow> count_list (f x) c = length (g x)) \<Longrightarrow>
   count_list (concat (map f xs)) c = length (concat (map g xs))"
  by (induction xs) simp_all

lemma item_value:
  "distinct (keys a) \<Longrightarrow> (k, v) \<in> set a \<Longrightarrow> get a k d = v"
  by (simp add: keys_def get_def)

lemma item_aligned:
  assumes valid: "assert_valid_input a = Inr ()"
    and dist: "distinct (keys a)"
    and item: "(k, v) \<in> set a"
    and kbc: "k \<noteq> ''building_code''"
    and nt: "list_valued [(k, v)]"
  shows "count_list (fragment a k) (CHR ''?'') = length (bound_values k v)"
proof -
  note raw = valid [unfolded assert_valid_input_Inr_raw]
  note frag = fragment_valid [OF valid]
  have g: "get a k d = v" for d
    using dist item by (rule item_value)
  have "k \<in> acceptable_keys"
    using valid_keys [OF valid] item_key [OF item] by blast
  then show ?thesis
    unfolding acceptable_keys_def
  proof (elim insertE emptyE)
    assume k: "k = ''time_start''"
    have "is_int v" using raw g [of "VInt 0"] k by simp
    then show ?thesis
      using k by (cases v) (simp_all add: frag where_dict_entries_def)
  next
    assume k: "k = ''time_end''"
    have "is_int v" using raw g [of "VInt 0"] k by simp
    then show ?thesis
      using k by (cases v) (simp_all add: frag where_dict_entries_def)
  next
    assume k: "k = ''enrollment''"
    have "is_list_or_tuple v \<and> length (elems v) = 2"
      using raw g [of "VList [VInt 0, VInt 0]"] k by simp
    then show ?thesis
      using k nt by (cases v) (simp_all add: frag where_dict_entries_def list_valued_def)
  next
    assume k: "k = ''dept''"
    have "is_str v" using raw g [of "VStr []"] k by simp
    then show ?thesis
      using k by (cases v) (simp_all add: frag where_dict_entries_def)
  next
    assume k: "k = ''terms''"
    have "is_list_or_tuple v" using raw g [of "VList [VStr []]"] k by simp
    then show ?thesis
      using k nt g [of "VList []"]
      by (cases v)
         (simp_all add: frag where_dict_entries_def list_valued_def count_where_terms
            count_placeholders)
  next
    assume k: "k = ''day''"
    have "is_list_or_tuple v" using raw g [of "VList []"] k by simp
    then show ?thesis
      using k nt g [of "VList []"]
      by (cases v)
         (simp_all add: frag where_dict_entries_def list_valued_def count_placeholders)
  next
    assume "k = ''building_code''"
    with kbc show ?thesis by simp
  next
    assume k: "k = ''walking_time''"
    have "is_int v" using raw g [of "VInt 0"] k by simp
    then show ?thesis
      using k by (cases v) (simp_all add: frag where_dict_entries_def)
  qed
qed














text \<open>
  What holds of the alignment of claim C1: for validated criteria with distinct keys and
  no tuple among their values, and a lookup whose rows hold two values, the parameter list
  is the lookup row followed by the values of each predicate in the order of the
  predicates in the where clause, each part of the text holds as many placeholders as it
  binds values, and so does the whole query.
\<close>

lemma parameters_aligned_for_lists:
  assumes valid: "assert_valid_input a = Inr ()"
    and dist: "distinct (keys a)"
    and lv: "list_valued a"
    and q: "compose c a = (Inr q, evs)"
    and width: "\<And>b description r more. c lookup_sql [b] = Inr (description, r # more) \<Longrightarrow> length r = 2"
  shows "\<exists>a0.
           args q = a0 @ concat (map (\<lambda>kv. bound_values (fst kv) (snd kv)) (predicate_items a)) \<and>
           where_clause q = where0 @ concat (map (\<lambda>kv. fragment a (fst kv)) (predicate_items a)) \<and>
           count_list (select q) (CHR ''?'') = length a0 \<and>
           count_list (frm q) (CHR ''?'') = 0 \<and>
           count_list where0 (CHR ''?'') = 0 \<and>
           list_all (\<lambda>kv. count_list (fragment a (fst kv)) (CHR ''?'')
                            = length (bound_values (fst kv) (snd kv))) (predicate_items a) \<and>
           count_list (query q) (CHR ''?'') = length (args q)"
proof -
  obtain a0 where sj: "select_and_joins c a = (Inr (select q, frm q, a0), evs)"
    and w: "where_clause q = where0 @ concat (map (\<lambda>kv. fragment a (fst kv)) (predicate_items a))"
    and ar: "args q = a0 @ concat (map (\<lambda>kv. bound_values (fst kv) (snd kv)) (predicate_items a))"
    using compose_parts [OF valid q] by blast
  have each: "count_list (fragment a (fst kv)) (CHR ''?'') = length (bound_values (fst kv) (snd kv))"
    if "kv \<in> set (predicate_items a)" for kv
  proof -
    from that have i: "(fst kv, snd kv) \<in> set a" and k: "fst kv \<noteq> ''building_code''"
      by (simp_all add: predicate_items_def)
    have "list_valued [(fst kv, snd kv)]"
      using lv i by (auto simp: list_valued_def list_all_iff)
    with valid dist i k show ?thesis by (rule item_aligned)
  qed
  have wh: "count_list (where_clause q) (CHR ''?'')
              = length (concat (map (\<lambda>kv. bound_values (fst kv) (snd kv)) (predicate_items a)))"
    unfolding w using count_concat [of "predicate_items a" "\<lambda>kv. fragment a (fst kv)" "CHR ''?''"
        "\<lambda>kv. bound_values (fst kv) (snd kv)"] each
    by (simp add: count_fixed_text)
  have sel: "count_list (select q) (CHR ''?'') = length a0 \<and> count_list (frm q) (CHR ''?'') = 0"
    using select_and_joins_shape [OF sj] width
    by (elim disjE conjE exE) (simp_all add: count_fixed_text)
  have total: "count_list (query q) (CHR ''?'') = length (args q)"
    using wh sel by (simp add: ar query_def)
  have "list_all (\<lambda>kv. count_list (fragment a (fst kv)) (CHR ''?'')
                     = length (bound_values (fst kv) (snd kv))) (predicate_items a)"
    using each by (simp add: list_all_iff)
  with ar w sel total count_fixed_text(6) show ?thesis by blast
qed

lemma valid_tuple_day:
  "assert_valid_input [(''day'', VTuple [VStr ''MWF'', VStr ''TR''])] = Inr ()"
  by (simp add: assert_valid_input_def assert_then_def get_def has_key_def keys_def
      acceptable_keys_def)

lemma compose_tuple_day:
  "compose c [(''day'', VTuple [VStr ''MWF'', VStr ''TR''])] =
     (Inr \<lparr>select = select0 @ add_select1, frm = frm0 @ add_joins,
           where_clause = where0 @ '' AND meeting_patterns.day IN (?, ?)'',
           args = [VTuple [VStr ''MWF'', VStr ''TR'']]\<rparr>, [])"
  unfolding compose_valid [OF valid_tuple_day]
  by (simp add: select_and_joins_def section_scoped keys_def input_vars_def predicate_items_def
      fragment_def where_dict_def get_def where_dict_entries_def placeholders_def
      numeral_2_eq_2)

text \<open>
  Claim C1 at a tuple, which the validator accepts for \<^verbatim>\<open>day\<close>: the text gets one
  placeholder per element, two here, and the tuple is bound whole, as one parameter.
\<close>

theorem tuple_day_misaligned:
  "assert_valid_input [(''day'', VTuple [VStr ''MWF'', VStr ''TR''])] = Inr () \<and>
   count_list (query (projr (fst (compose sample_store [(''day'', VTuple [VStr ''MWF'', VStr ''TR''])]))))
     (CHR ''?'') = 2 \<and>
   args (projr (fst (compose sample_store [(''day'', VTuple [VStr ''MWF'', VStr ''TR''])])))
     = [VTuple [VStr ''MWF'', VStr ''TR'']]"
  by (simp add: valid_tuple_day compose_tuple_day query_def count_fixed_text)

text \<open>One parameter for the two placeholders.\<close>

theorem tuple_day_misaligned_witness:
  "length (args (projr (fst (compose sample_store [(''day'', VTuple [VStr ''MWF'', VStr ''TR''])]))))
     = 1"
  using tuple_day_misaligned by simp

end
